theory Spec2Isabelle
  imports Main "HOL-Library.Word" "HOL-Library.Signed_Division"
begin

unbundle bit_operations_syntax

section \<open>Note codes: a shallow embedding of \<^verbatim>\<open>src/main.ts\<close>\<close>

text \<open>
  A JavaScript string is represented by the bytes of its UTF-8 encoding (a \<^typ>\<open>char\<close>
  is a byte), so that an ASCII character is one \<^typ>\<open>char\<close> and \<^verbatim>\<open>encoder.encode\<close>
  reads the representation off. Every string the program builds itself (codes, the
  alphabets, the separator) is ASCII. A string with an unpaired surrogate has no UTF-8
  encoding and is not represented.

  The methods of the plugin are asynchronous. Here a call is one step: \<open>addPath\<close> computes
  the code and writes both maps before the next call starts, so the calls of a sequence
  do not interleave at the \<^verbatim>\<open>await\<close> of the digest.
\<close>

type_synonym u8 = "8 word"
type_synonym u32 = "32 word"

subsection \<open>The platform digest: SHA-256 (FIPS 180-4)\<close>

text \<open>
  \<^verbatim>\<open>crypto.subtle.digest("SHA-256", data)\<close> is the host's; it is written out here after
  the standard so that codes of concrete paths can be computed.
\<close>

definition rotr :: "nat \<Rightarrow> u32 \<Rightarrow> u32" where
  "rotr n x = drop_bit n x OR push_bit (32 - n) x"

definition Ch :: "u32 \<Rightarrow> u32 \<Rightarrow> u32 \<Rightarrow> u32" where
  "Ch x y z = (x AND y) XOR (NOT x AND z)"

definition Maj :: "u32 \<Rightarrow> u32 \<Rightarrow> u32 \<Rightarrow> u32" where
  "Maj x y z = (x AND y) XOR (x AND z) XOR (y AND z)"

definition Sigma0 :: "u32 \<Rightarrow> u32" where
  "Sigma0 x = rotr 2 x XOR rotr 13 x XOR rotr 22 x"

definition Sigma1 :: "u32 \<Rightarrow> u32" where
  "Sigma1 x = rotr 6 x XOR rotr 11 x XOR rotr 25 x"

definition sigma0 :: "u32 \<Rightarrow> u32" where
  "sigma0 x = rotr 7 x XOR rotr 18 x XOR drop_bit 3 x"

definition sigma1 :: "u32 \<Rightarrow> u32" where
  "sigma1 x = rotr 17 x XOR rotr 19 x XOR drop_bit 10 x"

definition K256 :: "u32 list" where
  "K256 =
     [0x428a2f98, 0x71374491, 0xb5c0fbcf, 0xe9b5dba5] @
     [0x3956c25b, 0x59f111f1, 0x923f82a4, 0xab1c5ed5] @
     [0xd807aa98, 0x12835b01, 0x243185be, 0x550c7dc3] @
     [0x72be5d74, 0x80deb1fe, 0x9bdc06a7, 0xc19bf174] @
     [0xe49b69c1, 0xefbe4786, 0x0fc19dc6, 0x240ca1cc] @
     [0x2de92c6f, 0x4a7484aa, 0x5cb0a9dc, 0x76f988da] @
     [0x983e5152, 0xa831c66d, 0xb00327c8, 0xbf597fc7] @
     [0xc6e00bf3, 0xd5a79147, 0x06ca6351, 0x14292967] @
     [0x27b70a85, 0x2e1b2138, 0x4d2c6dfc, 0x53380d13] @
     [0x650a7354, 0x766a0abb, 0x81c2c92e, 0x92722c85] @
     [0xa2bfe8a1, 0xa81a664b, 0xc24b8b70, 0xc76c51a3] @
     [0xd192e819, 0xd6990624, 0xf40e3585, 0x106aa070] @
     [0x19a4c116, 0x1e376c08, 0x2748774c, 0x34b0bcb5] @
     [0x391c0cb3, 0x4ed8aa4a, 0x5b9cca4f, 0x682e6ff3] @
     [0x748f82ee, 0x78a5636f, 0x84c87814, 0x8cc70208] @
     [0x90befffa, 0xa4506ceb, 0xbef9a3f7, 0xc67178f2]"

definition H256 :: "u32 list" where
  "H256 = [0x6a09e667, 0xbb67ae85, 0x3c6ef372, 0xa54ff53a,
           0x510e527f, 0x9b05688c, 0x1f83d9ab, 0x5be0cd19]"

text \<open>Padding: the byte 0x80, zero bytes up to 56 modulo 64, the bit length on 8 bytes.\<close>

definition be_bytes :: "nat \<Rightarrow> u8 list" where
  "be_bytes n = map (\<lambda>i. of_nat (n div 256 ^ i)) [7, 6, 5, 4, 3, 2, 1, 0]"

definition pad :: "u8 list \<Rightarrow> u8 list" where
  "pad m = m @ [0x80] @ replicate ((119 - length m mod 64) mod 64) 0
             @ be_bytes (8 * length m)"

fun be_words :: "u8 list \<Rightarrow> u32 list" where
  "be_words (a # b # c # d # r) =
     (push_bit 24 (ucast a) OR push_bit 16 (ucast b) OR push_bit 8 (ucast c) OR ucast d)
       # be_words r"
| "be_words _ = []"

text \<open>
  The message schedule is a window of sixteen words, \<open>w ! 0\<close> being the word of the
  current round; the working variables \<open>a, \<dots>, h\<close> are a list of eight words.
\<close>

definition next_word :: "u32 list \<Rightarrow> u32" where
  "next_word w = sigma1 (w ! 14) + w ! 9 + sigma0 (w ! 1) + w ! 0"

definition shift_state :: "u32 \<Rightarrow> u32 \<Rightarrow> u32 list \<Rightarrow> u32 list" where
  "shift_state t1 t2 s = [t1 + t2, s ! 0, s ! 1, s ! 2, s ! 3 + t1, s ! 4, s ! 5, s ! 6]"

definition round :: "u32 \<Rightarrow> u32 \<Rightarrow> u32 list \<Rightarrow> u32 list" where
  "round k w s =
     shift_state (s ! 7 + Sigma1 (s ! 4) + Ch (s ! 4) (s ! 5) (s ! 6) + k + w)
                 (Sigma0 (s ! 0) + Maj (s ! 0) (s ! 1) (s ! 2)) s"

primrec rounds :: "u32 list \<Rightarrow> u32 list \<Rightarrow> u32 list \<Rightarrow> u32 list" where
  "rounds [] w s = s"
| "rounds (k # ks) w s = rounds ks (tl w @ [next_word w]) (round k (w ! 0) s)"

definition compress :: "u32 list \<Rightarrow> u8 list \<Rightarrow> u32 list" where
  "compress hs block = map2 (+) hs (rounds K256 (be_words block) hs)"

primrec blocks :: "nat \<Rightarrow> u32 list \<Rightarrow> u8 list \<Rightarrow> u32 list" where
  "blocks 0 hs m = hs"
| "blocks (Suc n) hs m = blocks n (compress hs (take 64 m)) (drop 64 m)"

definition word_bytes :: "u32 \<Rightarrow> u8 list" where
  "word_bytes w = [ucast (drop_bit 24 w), ucast (drop_bit 16 w), ucast (drop_bit 8 w), ucast w]"

definition sha256 :: "u8 list \<Rightarrow> u8 list" where
  "sha256 m = concat (map word_bytes (blocks (length (pad m) div 64) H256 (pad m)))"

text \<open>\<^verbatim>\<open>encoder.encode(string)\<close>: the UTF-8 bytes of the string.\<close>

definition encode :: "string \<Rightarrow> u8 list" where
  "encode s = map of_char s"

subsection \<open>The alphabets (lines 30 to 41)\<close>

definition jsBase32Alphabet :: string where
  "jsBase32Alphabet = ''0123456789abcdefghijklmnopqrstuv''"

definition base32Alphabet :: string where
  "base32Alphabet = ''0123456789ABCDEFGHJKMNPQRSTVWXYZ''"

definition ALPHABET_LENGTH :: nat where
  "ALPHABET_LENGTH = length base32Alphabet"

text \<open>
  \<^verbatim>\<open>Object.fromEntries\<close> of the pairs (rendering digit, canonical symbol); a key that is
  not there reads as \<^verbatim>\<open>undefined\<close>, here \<open>None\<close>.
\<close>

definition jsBase32Mapping :: "char \<Rightarrow> char option" where
  "jsBase32Mapping = map_of (zip jsBase32Alphabet base32Alphabet)"

definition base32Mapping :: "char \<Rightarrow> char option" where
  "base32Mapping = map_of
     [(CHR ''O'', CHR ''0''), (CHR ''L'', CHR ''1''), (CHR ''I'', CHR ''1''), (CHR ''U'', CHR ''V'')]"

subsection \<open>\<^verbatim>\<open>hashString\<close> (lines 44 to 58)\<close>

text \<open>
  \<^verbatim>\<open>bytes[i]\<close> as an operand of \<^verbatim>\<open><<\<close>: a 32-bit integer; an index past the end
  of the array reads \<^verbatim>\<open>undefined\<close>, which \<^verbatim>\<open><<\<close> takes as 0.
\<close>

definition byte_at :: "u8 list \<Rightarrow> nat \<Rightarrow> u32" where
  "byte_at bytes i = (if i < length bytes then ucast (bytes ! i) else 0)"

text \<open>
  \<^verbatim>\<open>num.toString(32)\<close>: the digits of \<^verbatim>\<open>Number.prototype.toString\<close>, most significant
  first, no leading zero, a minus sign before a negative number.
\<close>

definition radix_digits :: string where
  "radix_digits = ''0123456789abcdefghijklmnopqrstuvwxyz''"

function digits32 :: "nat \<Rightarrow> string" where
  "digits32 n = (if n < 32 then [radix_digits ! n]
                 else digits32 (n div 32) @ [radix_digits ! (n mod 32)])"
  by pat_completeness auto
termination
  by (relation "measure id") auto

definition toString32 :: "int \<Rightarrow> string" where
  "toString32 n = (if n < 0 then CHR ''-'' # digits32 (nat (- n)) else digits32 (nat n))"

definition padStart :: "nat \<Rightarrow> char \<Rightarrow> string \<Rightarrow> string" where
  "padStart n c s = replicate (n - length s) c @ s"

definition padEnd :: "nat \<Rightarrow> char \<Rightarrow> string \<Rightarrow> string" where
  "padEnd n c s = s @ replicate (n - length s) c"

text \<open>
  The destructuring \<^verbatim>\<open>[a, b, c, d]\<close> reads the first four elements, \<^verbatim>\<open>undefined\<close>
  where the array is shorter; the template literal prints \<^verbatim>\<open>undefined\<close> by name.
\<close>

definition element :: "char option list \<Rightarrow> nat \<Rightarrow> char option" where
  "element xs i = (if i < length xs then xs ! i else None)"

definition interpolate :: "char option \<Rightarrow> string" where
  "interpolate x = (case x of None \<Rightarrow> ''undefined'' | Some c \<Rightarrow> [c])"

text \<open>
  Line 49: \<^verbatim>\<open><<\<close> and \<^verbatim>\<open>|\<close> work on 32-bit integers, read back signed;
  \<^verbatim>\<open>%\<close> takes the sign of the dividend; \<^verbatim>\<open>**\<close> binds tighter than \<^verbatim>\<open>%\<close>.
\<close>

definition num_of :: "u8 list \<Rightarrow> int" where
  "num_of bytes =
     sint (push_bit 16 (byte_at bytes 0) OR push_bit 8 (byte_at bytes 1)
             OR push_bit 0 (byte_at bytes 2))
       smod int (ALPHABET_LENGTH ^ 4)"

definition code_of_bytes :: "u8 list \<Rightarrow> string" where
  "code_of_bytes bytes =
     (let cs = map jsBase32Mapping (padStart 4 CHR ''0'' (toString32 (num_of bytes)))
      in interpolate (element cs 0) @ interpolate (element cs 1) @ ''-''
           @ interpolate (element cs 2) @ interpolate (element cs 3))"

definition hashString :: "string \<Rightarrow> string" where
  "hashString string = code_of_bytes (sha256 (encode string))"

subsection \<open>\<^verbatim>\<open>formatHash\<close> (lines 61 to 75)\<close>

text \<open>
  \<^verbatim>\<open>toUpperCase\<close> maps an ASCII letter to its capital and leaves every other ASCII
  character alone. What the host's Unicode tables make of a run of non-ASCII characters
  (nothing for most, \<^verbatim>\<open>SS\<close> for a sharp s) is the parameter \<open>up\<close>: the function from
  a maximal run of non-ASCII bytes to its upper-case form.
\<close>

definition is_ascii :: "char \<Rightarrow> bool" where
  "is_ascii c = (of_char c < (128 :: nat))"

definition upper_ascii :: "char \<Rightarrow> char" where
  "upper_ascii c =
     (case map_of (zip ''abcdefghijklmnopqrstuvwxyz'' ''ABCDEFGHIJKLMNOPQRSTUVWXYZ'') c of
        Some u \<Rightarrow> u | None \<Rightarrow> c)"

function toUpperCase :: "(string \<Rightarrow> string) \<Rightarrow> string \<Rightarrow> string" where
  "toUpperCase up [] = []"
| "toUpperCase up (c # cs) =
     (if is_ascii c then upper_ascii c # toUpperCase up cs
      else up (c # takeWhile (\<lambda>x. \<not> is_ascii x) cs)
             @ toUpperCase up (dropWhile (\<lambda>x. \<not> is_ascii x) cs))"
  by pat_completeness auto
termination
  by (relation "measure (\<lambda>(up, s). length s)")
     (auto simp: length_dropWhile_le less_Suc_eq_le)

definition formatHash :: "(string \<Rightarrow> string) \<Rightarrow> string \<Rightarrow> string" where
  "formatHash up hash0 =
     (let hash1 = take 4 (filter (\<lambda>c. c \<in> set base32Alphabet)
                    (map (\<lambda>c. case base32Mapping c of Some v \<Rightarrow> v | None \<Rightarrow> c)
                       (toUpperCase up hash0)))
      in if length hash1 > 2 then take 2 hash1 @ ''-'' @ drop 2 hash1 else hash1)"

subsection \<open>The index (lines 123 to 148)\<close>

text \<open>
  A JavaScript \<^verbatim>\<open>Map\<close> iterates in insertion order: it is a list of entries with
  distinct keys. \<^verbatim>\<open>set\<close> replaces the value of a key in place and appends a new key;
  \<^verbatim>\<open>delete\<close> removes the entry.
\<close>

type_synonym ('k, 'v) jsmap = "('k \<times> 'v) list"

fun jsmap_get :: "('k, 'v) jsmap \<Rightarrow> 'k \<Rightarrow> 'v option" where
  "jsmap_get [] k = None"
| "jsmap_get ((k', v) # m) k = (if k' = k then Some v else jsmap_get m k)"

fun jsmap_set :: "('k, 'v) jsmap \<Rightarrow> 'k \<Rightarrow> 'v \<Rightarrow> ('k, 'v) jsmap" where
  "jsmap_set [] k v = [(k, v)]"
| "jsmap_set ((k', v') # m) k v = (if k' = k then (k, v) # m else (k', v') # jsmap_set m k v)"

fun jsmap_delete :: "('k, 'v) jsmap \<Rightarrow> 'k \<Rightarrow> ('k, 'v) jsmap" where
  "jsmap_delete [] k = []"
| "jsmap_delete ((k', v') # m) k = (if k' = k then m else (k', v') # jsmap_delete m k)"

record NoteCodes =
  hashesToPaths :: "(string, string) jsmap"
  pathsToHashes :: "(string, string) jsmap"

definition empty_index :: NoteCodes where
  "empty_index = \<lparr>hashesToPaths = [], pathsToHashes = []\<rparr>"

text \<open>The methods return their value and the index after the call.\<close>

definition addPath :: "NoteCodes \<Rightarrow> string \<Rightarrow> string \<times> NoteCodes" where
  "addPath this p =
     (let h = hashString p
      in (h, \<lparr>hashesToPaths = jsmap_set (hashesToPaths this) h p,
              pathsToHashes = jsmap_set (pathsToHashes this) p h\<rparr>))"

text \<open>\<^verbatim>\<open>if (hash)\<close>: a string is truthy unless it is empty.\<close>

definition removePath :: "NoteCodes \<Rightarrow> string \<Rightarrow> NoteCodes" where
  "removePath this p =
     (case jsmap_get (pathsToHashes this) p of
        None \<Rightarrow> this
      | Some h \<Rightarrow>
          if h \<noteq> [] then
            \<lparr>hashesToPaths = jsmap_delete (hashesToPaths this) h,
             pathsToHashes = jsmap_delete (pathsToHashes this) p\<rparr>
          else this)"

definition getHashForPath :: "NoteCodes \<Rightarrow> string \<Rightarrow> string \<times> NoteCodes" where
  "getHashForPath this p =
     (case jsmap_get (pathsToHashes this) p of
        None \<Rightarrow> addPath this p
      | Some h \<Rightarrow> if h \<noteq> [] then (h, this) else addPath this p)"

text \<open>Sequences of the two mutators, as the vault's create, delete and rename events issue them.\<close>

datatype operation = AddPath string | RemovePath string

fun perform :: "NoteCodes \<Rightarrow> operation \<Rightarrow> NoteCodes" where
  "perform this (AddPath p) = snd (addPath this p)"
| "perform this (RemovePath p) = removePath this p"

fun run :: "NoteCodes \<Rightarrow> operation list \<Rightarrow> NoteCodes" where
  "run this [] = this"
| "run this (x # xs) = run (perform this x) xs"


subsection \<open>Search and resolution (lines 101 to 113, 198 to 220)\<close>

record Entry =
  hash :: string
  path :: string

definition startsWith :: "string \<Rightarrow> string \<Rightarrow> bool" where
  "startsWith s q = (take (length q) s = q)"

text \<open>
  The \<^verbatim>\<open>for \<dots> of\<close> loop over the entries of the map, pushing onto \<open>results\<close>.
  \<open>getSuggestions\<close> also writes the formatted query back to the input field, which is
  not part of the index and is left out.
\<close>

fun suggestions_loop :: "string \<Rightarrow> (string, string) jsmap \<Rightarrow> Entry list \<Rightarrow> Entry list" where
  "suggestions_loop query [] results = results"
| "suggestions_loop query ((h, p) # entries) results =
     suggestions_loop query entries
       (if startsWith h query then results @ [\<lparr>hash = h, path = p\<rparr>] else results)"

definition getSuggestions :: "(string \<Rightarrow> string) \<Rightarrow> NoteCodes \<Rightarrow> string \<Rightarrow> Entry list" where
  "getSuggestions up plugin query =
     suggestions_loop (formatHash up query) (hashesToPaths plugin) []"

text \<open>
  \<^verbatim>\<open>openNoteForHash\<close> shows a notice or opens a file; \<open>vault\<close> tells whether
  \<^verbatim>\<open>getFileByPath\<close> finds a file. \<^verbatim>\<open>if (!path)\<close> holds for a missing entry and for
  an empty path.
\<close>

datatype outcome = NoSuchNoteCode string | OpenFile string | FileNotFound string

definition openNoteForHash ::
  "(string \<Rightarrow> string) \<Rightarrow> (string \<Rightarrow> bool) \<Rightarrow> NoteCodes \<Rightarrow> string \<Rightarrow> outcome \<times> NoteCodes" where
  "openNoteForHash up vault this hash0 =
     (let hash1 = formatHash up hash0
      in case jsmap_get (hashesToPaths this) hash1 of
           None \<Rightarrow> (NoSuchNoteCode (padEnd 5 CHR ''_'' hash1), this)
         | Some p \<Rightarrow>
             if p = [] then (NoSuchNoteCode (padEnd 5 CHR ''_'' hash1), this)
             else if vault p then (OpenFile p, this)
             else (FileNotFound p, this))"

subsection \<open>The hash function as the specification words it\<close>

text \<open>
  The first three digest bytes packed big-endian into a 24-bit integer, reduced modulo
  \<open>32 ^ 4\<close>, rendered as four base-32 digits with leading zeros, each digit translated
  through the substitution table (the rendering digit at a position goes to the canonical
  symbol at that position), the separator after the second symbol.
\<close>

definition spec_table :: "char \<Rightarrow> char" where
  "spec_table c = (case map_of (zip jsBase32Alphabet base32Alphabet) c of Some s \<Rightarrow> s | None \<Rightarrow> c)"

definition spec_hash :: "string \<Rightarrow> string" where
  "spec_hash p =
     (let d = sha256 (encode p);
          n24 = unat (d ! 0) * 2 ^ 16 + unat (d ! 1) * 2 ^ 8 + unat (d ! 2);
          v = n24 mod 32 ^ 4;
          digits = map (\<lambda>i. jsBase32Alphabet ! (v div 32 ^ i mod 32)) [3, 2, 1, 0];
          syms = map spec_table digits
      in take 2 syms @ ''-'' @ drop 2 syms)"

subsection \<open>Auxiliary functions of the proofs\<close>

text \<open>The byte that \<open>byte_at\<close> widens, and the number that line 49 computes.\<close>

definition byte_or_zero :: "u8 list \<Rightarrow> nat \<Rightarrow> u8" where
  "byte_or_zero bytes i = (if i < length bytes then bytes ! i else 0)"

definition packed :: "u8 list \<Rightarrow> nat" where
  "packed bytes = (unat (byte_or_zero bytes 0) * 65536 + unat (byte_or_zero bytes 1) * 256
      + unat (byte_or_zero bytes 2)) mod 32 ^ 4"

text \<open>The \<open>k\<close> low base-32 digits of a number, most significant first.\<close>

fun pos_digits :: "nat \<Rightarrow> nat \<Rightarrow> nat list" where
  "pos_digits 0 n = []"
| "pos_digits (Suc k) n = pos_digits k (n div 32) @ [n mod 32]"

text \<open>The two halves of \<open>formatHash\<close>: the symbols kept, and the separator put in.\<close>

definition symbols :: "(string \<Rightarrow> string) \<Rightarrow> string \<Rightarrow> string" where
  "symbols up s = take 4 (filter (\<lambda>c. c \<in> set base32Alphabet)
                    (map (\<lambda>c. case base32Mapping c of Some v \<Rightarrow> v | None \<Rightarrow> c)
                       (toUpperCase up s)))"

definition separate :: "string \<Rightarrow> string" where
  "separate h = (if length h > 2 then take 2 h @ ''-'' @ drop 2 h else h)"

text \<open>
  The invariant of the index: keys are distinct, every tracked path carries its own code,
  and every entry of the code map points to a path that is tracked under that code.
\<close>

definition sound :: "NoteCodes \<Rightarrow> bool" where
  "sound st \<longleftrightarrow>
     distinct (map fst (hashesToPaths st)) \<and> distinct (map fst (pathsToHashes st)) \<and>
     (\<forall>p c. jsmap_get (pathsToHashes st) p = Some c \<longrightarrow> c = hashString p) \<and>
     (\<forall>c q. jsmap_get (hashesToPaths st) c = Some q \<longrightarrow>
        c = hashString q \<and> jsmap_get (pathsToHashes st) q = Some c)"



section \<open>Properties\<close>

declare digits32.simps [simp del]
declare toUpperCase.simps [simp del]

subsection \<open>The number of line 49\<close>

lemma int_pack:
  fixes A B C :: int
  assumes "0 \<le> B" "B < 256" "0 \<le> C" "C < 256"
  shows "push_bit 16 A OR push_bit 8 B OR C = A * 65536 + B * 256 + C"
proof -
  have B: "take_bit 8 B = B" and C: "take_bit 8 C = C"
    using assms by (simp_all add: take_bit_int_eq_self)
  have "push_bit 16 A OR push_bit 8 B OR C = concat_bit 8 C (concat_bit 8 B A)"
    by (simp add: concat_bit_def B C or.commute or.left_commute flip: push_bit_add)
  also have "\<dots> = A * 65536 + B * 256 + C"
    by (simp add: concat_bit_eq B C push_bit_eq_mult)
  finally show ?thesis .
qed

lemma uint_byte: "0 \<le> uint (a :: u8)" "uint (a :: u8) < 256"
  using uint_lt2p [of a] by simp_all

lemma uint_push_byte:
  "n \<le> 16 \<Longrightarrow> uint (push_bit n (ucast (a :: u8) :: u32)) = push_bit n (uint a)"
proof -
  assume n: "n \<le> 16"
  have ua: "uint (ucast a :: u32) = uint a"
    by (simp add: uint_up_ucast is_up)
  have "push_bit n (uint a) < 2 ^ n * 2 ^ 8"
    using uint_byte [of a] by (simp add: push_bit_eq_mult)
  also have "\<dots> = (2 :: int) ^ (n + 8)"
    by (simp add: power_add)
  also have "\<dots> \<le> 2 ^ 32"
    using n by (intro power_increasing) simp_all
  finally have "push_bit n (uint a) < 2 ^ 32" .
  moreover have "0 \<le> push_bit n (uint a)"
    by (simp add: push_bit_eq_mult)
  ultimately show ?thesis
    by (simp add: unsigned_push_bit_eq ua take_bit_int_eq_self)
qed

lemma pack24:
  fixes a b c :: u8
  shows "uint (push_bit 16 (ucast a :: u32) OR push_bit 8 (ucast b) OR push_bit 0 (ucast c))
       = uint a * 65536 + uint b * 256 + uint c"
proof -
  have "uint (push_bit 16 (ucast a :: u32) OR push_bit 8 (ucast b) OR push_bit 0 (ucast c))
      = push_bit 16 (uint a) OR push_bit 8 (uint b) OR push_bit 0 (uint c)"
    by (simp only: uint_or uint_push_byte)
  also have "\<dots> = uint a * 65536 + uint b * 256 + uint c"
    using int_pack [of "uint b" "uint c" "uint a"] uint_byte [of b] uint_byte [of c] by simp
  finally show ?thesis .
qed

lemma sint_pack24:
  fixes a b c :: u8
  shows "sint (push_bit 16 (ucast a :: u32) OR push_bit 8 (ucast b) OR push_bit 0 (ucast c))
       = uint a * 65536 + uint b * 256 + uint c"
proof -
  let ?w = "push_bit 16 (ucast a :: u32) OR push_bit 8 (ucast b) OR push_bit 0 (ucast c)"
  have u: "uint ?w = uint a * 65536 + uint b * 256 + uint c"
    by (rule pack24)
  have lo: "0 \<le> uint ?w"
    by simp
  have hi: "uint ?w < 2 ^ 31"
    unfolding u using uint_byte [of a] uint_byte [of b] uint_byte [of c] by simp
  have "- (2 ^ 31) \<le> uint ?w"
    by (rule order_trans [OF _ lo]) simp
  then have "signed_take_bit 31 (uint ?w) = uint ?w"
    using hi by (rule signed_take_bit_int_eq_self)
  then have "sint ?w = uint ?w"
    by (simp only: sint_uint) simp
  then show ?thesis
    by (simp only: u)
qed

lemma smod_nonneg: "0 \<le> (k :: int) \<Longrightarrow> 0 < l \<Longrightarrow> k smod l = k mod l"
  by (cases "k = 0") (simp_all add: signed_modulo_int_def sgn_if)

lemma byte_at_ucast: "byte_at bytes i = ucast (byte_or_zero bytes i)"
  by (simp add: byte_at_def byte_or_zero_def)

lemma num_of_packed: "num_of bytes = int (packed bytes)"
proof -
  let ?k = "uint (byte_or_zero bytes 0) * 65536 + uint (byte_or_zero bytes 1) * 256
      + uint (byte_or_zero bytes 2)"
  have k: "0 \<le> ?k"
    using uint_byte(1) [of "byte_or_zero bytes 0"] uint_byte(1) [of "byte_or_zero bytes 1"]
      uint_byte(1) [of "byte_or_zero bytes 2"] by simp
  have "num_of bytes = ?k smod 1048576"
    by (simp only: num_of_def byte_at_ucast sint_pack24)
       (simp add: ALPHABET_LENGTH_def base32Alphabet_def)
  also have "\<dots> = ?k mod 1048576"
    using k by (rule smod_nonneg) simp
  also have "\<dots> = int (packed bytes)"
    by (simp add: packed_def zmod_int)
  finally show ?thesis .
qed

lemma packed_less: "packed bytes < 1048576"
  by (simp add: packed_def)


subsection \<open>Rendering in base 32\<close>

lemma padStart_digits_step:
  assumes "0 < k"
  shows "padStart (Suc k) CHR ''0'' (digits32 n) =
         padStart k CHR ''0'' (digits32 (n div 32)) @ [radix_digits ! (n mod 32)]"
proof (cases "n < 32")
  case True
  obtain j where j: "k = Suc j"
    using assms by (cases k) auto
  have "digits32 0 = ''0''"
    by (simp add: digits32.simps [of 0] radix_digits_def)
  then show ?thesis
    using True j by (simp add: digits32.simps [of n] padStart_def replicate_append_same)
next
  case False
  then show ?thesis
    by (simp add: digits32.simps [of n] padStart_def Suc_diff_le)
qed

lemma padStart_digits:
  "0 < k \<Longrightarrow> n < 32 ^ k \<Longrightarrow>
     padStart k CHR ''0'' (digits32 n) = map ((!) radix_digits) (pos_digits k n)"
proof (induction k arbitrary: n)
  case 0
  then show ?case by simp
next
  case (Suc k)
  show ?case
  proof (cases "k = 0")
    case True
    then show ?thesis
      using Suc.prems by (simp add: digits32.simps [of n] padStart_def)
  next
    case False
    have "n div 32 < 32 ^ k"
      using Suc.prems by (simp add: less_mult_imp_div_less mult.commute)
    then show ?thesis
      using False Suc.IH [of "n div 32"] by (simp add: padStart_digits_step)
  qed
qed

lemma pos_digits_less: "d \<in> set (pos_digits k n) \<Longrightarrow> d < 32"
  by (induction k arbitrary: n) auto


lemma digit_table:
  "list_all (\<lambda>d. jsBase32Mapping (radix_digits ! d) = Some (base32Alphabet ! d)) [0..<32]"
  by (simp add: upt_rec [of _ "numeral n" for n] upt_rec [of _ "Suc n" for n] jsBase32Mapping_def radix_digits_def jsBase32Alphabet_def
     base32Alphabet_def)

lemma mapping_digit:
  assumes "d < 32"
  shows "jsBase32Mapping (radix_digits ! d) = Some (base32Alphabet ! d)"
  using digit_table assms by (simp add: list_all_iff)

lemma alphabet_nth:
  assumes "d < 32"
  shows "base32Alphabet ! d \<in> set base32Alphabet"
  by (rule nth_mem) (use assms in \<open>simp add: base32Alphabet_def\<close>)


lemma pos_digits_4:
  "pos_digits 4 n = [n div 32 div 32 div 32 mod 32, n div 32 div 32 mod 32, n div 32 mod 32, n mod 32]"
proof -
  have "(4 :: nat) = Suc (Suc (Suc (Suc 0)))"
    by simp
  then show ?thesis
    by (simp only: pos_digits.simps) simp
qed

lemma code_of_bytes_eq:
  "code_of_bytes bytes =
      [base32Alphabet ! (packed bytes div 32 div 32 div 32 mod 32),
       base32Alphabet ! (packed bytes div 32 div 32 mod 32),
       CHR ''-'',
       base32Alphabet ! (packed bytes div 32 mod 32),
       base32Alphabet ! (packed bytes mod 32)]"
proof -
  have n: "packed bytes < 32 ^ 4"
    using packed_less [of bytes] by simp
  have "toString32 (num_of bytes) = digits32 (packed bytes)"
    by (simp add: toString32_def num_of_packed)
  then have "padStart 4 CHR ''0'' (toString32 (num_of bytes))
      = map ((!) radix_digits) (pos_digits 4 (packed bytes))"
    using padStart_digits [OF _ n] by simp
  then have eq: "map jsBase32Mapping (padStart 4 CHR ''0'' (toString32 (num_of bytes)))
      = map (\<lambda>d. Some (base32Alphabet ! d)) (pos_digits 4 (packed bytes))"
    by (simp only: pos_digits_4) (simp add: mapping_digit)
  show ?thesis
    unfolding code_of_bytes_def Let_def eq pos_digits_4
    by (simp add: element_def interpolate_def)
qed

subsection \<open>The digest has 32 bytes\<close>

lemma length_rounds: "length s = 8 \<Longrightarrow> length (rounds ks w s) = 8"
  by (induction ks arbitrary: w s) (simp_all add: round_def shift_state_def)

lemma length_blocks: "length hs = 8 \<Longrightarrow> length (blocks n hs m) = 8"
  by (induction n arbitrary: hs m) (simp_all add: compress_def length_rounds)

lemma length_word_bytes: "length (concat (map word_bytes xs)) = 4 * length xs"
  by (induction xs) (simp_all add: word_bytes_def)

lemma length_sha256: "length (sha256 m) = 32"
proof -
  have "length (blocks (length (pad m) div 64) H256 (pad m)) = 8"
    by (rule length_blocks) (simp add: H256_def)
  then show ?thesis
    by (simp add: sha256_def length_word_bytes)
qed

subsection \<open>The shape of a code\<close>

lemma alphabet_facts:
  "distinct base32Alphabet \<and> length base32Alphabet = 32 \<and>
   set base32Alphabet = set ''0123456789ABCDEFGHIJKLMNOPQRSTUVWXYZ'' - set ''OILU''"
  by (auto simp: base32Alphabet_def)

lemma code_of_bytes_shape:
  "length (code_of_bytes bs) = 5 \<and> code_of_bytes bs ! 2 = CHR ''-'' \<and>
   code_of_bytes bs ! 0 \<in> set base32Alphabet \<and> code_of_bytes bs ! 1 \<in> set base32Alphabet \<and>
   code_of_bytes bs ! 3 \<in> set base32Alphabet \<and> code_of_bytes bs ! 4 \<in> set base32Alphabet"
  by (simp add: code_of_bytes_eq alphabet_nth)

text \<open>
  Claim C8. For every string \<open>p\<close>, \<open>hashString p\<close> has exactly five characters, the
  third of them (index 2) is the separator, and each of the four others belongs to the
  canonical alphabet, which has 32 distinct symbols: the digits and the capital letters
  without O, I, L and U.
\<close>

theorem hashString_shape:
  "length (hashString p) = 5 \<and> hashString p ! 2 = CHR ''-'' \<and>
   hashString p ! 0 \<in> set base32Alphabet \<and> hashString p ! 1 \<in> set base32Alphabet \<and>
   hashString p ! 3 \<in> set base32Alphabet \<and> hashString p ! 4 \<in> set base32Alphabet \<and>
   distinct base32Alphabet \<and> length base32Alphabet = 32 \<and>
   set base32Alphabet = set ''0123456789ABCDEFGHIJKLMNOPQRSTUVWXYZ'' - set ''OILU''"
  using code_of_bytes_shape [of "sha256 (encode p)"] alphabet_facts
  unfolding hashString_def by blast

subsection \<open>The code and the specification's algorithm\<close>

lemma spec_digit_table:
  "list_all (\<lambda>d. spec_table (jsBase32Alphabet ! d) = base32Alphabet ! d) [0..<32]"
  by (simp add: upt_rec [of _ "numeral n" for n] upt_rec [of _ "Suc n" for n]
        spec_table_def jsBase32Alphabet_def base32Alphabet_def)

lemma spec_table_digit:
  assumes "d < 32"
  shows "spec_table (jsBase32Alphabet ! d) = base32Alphabet ! d"
  using spec_digit_table assms by (simp add: list_all_iff)

lemma map_spec_table: "map spec_table jsBase32Alphabet = base32Alphabet"
  by (simp add: spec_table_def jsBase32Alphabet_def base32Alphabet_def)

lemma spec_table_bij: "bij_betw spec_table (set jsBase32Alphabet) (set base32Alphabet)"
proof -
  have "distinct (map spec_table jsBase32Alphabet)"
    using alphabet_facts by (simp only: map_spec_table)
  then have "inj_on spec_table (set jsBase32Alphabet)"
    by (simp only: distinct_map)
  moreover have "spec_table ` set jsBase32Alphabet = set base32Alphabet"
    by (simp only: map_spec_table flip: set_map)
  ultimately show ?thesis
    by (simp only: bij_betw_def)
qed

lemma packed_sha256:
  "packed (sha256 m) =
     (unat (sha256 m ! 0) * 2 ^ 16 + unat (sha256 m ! 1) * 2 ^ 8 + unat (sha256 m ! 2)) mod 32 ^ 4"
  by (simp add: packed_def byte_or_zero_def length_sha256)

lemma spec_hash_eq:
  "spec_hash p =
      [base32Alphabet ! (packed (sha256 (encode p)) div 32 div 32 div 32 mod 32),
       base32Alphabet ! (packed (sha256 (encode p)) div 32 div 32 mod 32),
       CHR ''-'',
       base32Alphabet ! (packed (sha256 (encode p)) div 32 mod 32),
       base32Alphabet ! (packed (sha256 (encode p)) mod 32)]"
proof -
  have "v div 32 div 32 div 32 = v div (32 * 32 * 32)" "v div 32 div 32 = v div (32 * 32)"
    for v :: nat
    by (simp_all only: div_mult2_eq)
  then have d: "v div 32768 = v div 32 div 32 div 32" "v div 1024 = v div 32 div 32" for v :: nat
    by simp_all
  show ?thesis
    unfolding spec_hash_def Let_def packed_sha256 [symmetric]
    by (simp add: spec_table_digit d)
qed

text \<open>
  Claim C2. For every string \<open>p\<close>, \<open>hashString p\<close> is the result of the specification's
  algorithm: the first three bytes of the SHA-256 digest of the UTF-8 encoding packed
  big-endian into a 24-bit integer, reduced modulo \<open>32 ^ 4\<close>, rendered in base 32 on four
  digits with leading zeros, each digit translated through the substitution table, the
  separator inserted after the second character. The table is one-to-one from the
  rendering digits onto the canonical alphabet.
\<close>

theorem hashString_refines_spec:
  "hashString p = spec_hash p \<and> bij_betw spec_table (set jsBase32Alphabet) (set base32Alphabet)"
  by (simp only: hashString_def code_of_bytes_eq spec_hash_eq spec_table_bij)

subsection \<open>The formatter\<close>

lemma formatHash_separate: "formatHash up s = separate (symbols up s)"
  by (simp add: formatHash_def symbols_def separate_def Let_def)

lemma canonical_table:
  "list_all (\<lambda>c. is_ascii c \<and> upper_ascii c = c \<and> base32Mapping c = None)
     (CHR ''-'' # base32Alphabet)"
  by (simp add: base32Alphabet_def is_ascii_def upper_ascii_def base32Mapping_def)

lemma canonical_char:
  assumes "c \<in> set base32Alphabet \<or> c = CHR ''-''"
  shows "is_ascii c \<and> upper_ascii c = c \<and> base32Mapping c = None"
  using canonical_table assms unfolding list_all_iff by auto

lemma toUpperCase_canonical:
  "\<forall>c\<in>set s. c \<in> set base32Alphabet \<or> c = CHR ''-'' \<Longrightarrow> toUpperCase up s = s"
  by (induction s) (simp_all add: toUpperCase.simps canonical_char)

lemma separator_not_symbol: "CHR ''-'' \<notin> set base32Alphabet"
  by (simp add: base32Alphabet_def)

lemma set_separate: "set (separate h) \<subseteq> insert CHR ''-'' (set h)"
proof -
  have "set (take 2 h) \<union> set (drop 2 h) = set h"
    by (metis append_take_drop_id set_append)
  then show ?thesis
    by (auto simp: separate_def)
qed

lemma filter_separate:
  assumes "set h \<subseteq> set base32Alphabet"
  shows "filter (\<lambda>c. c \<in> set base32Alphabet) (separate h) = h"
proof -
  have "filter (\<lambda>c. c \<in> set base32Alphabet) xs = xs" if "set xs \<subseteq> set h" for xs
    using that assms by (auto simp: filter_id_conv)
  then have "filter (\<lambda>c. c \<in> set base32Alphabet) (take 2 h) = take 2 h"
    and "filter (\<lambda>c. c \<in> set base32Alphabet) (drop 2 h) = drop 2 h"
    and "filter (\<lambda>c. c \<in> set base32Alphabet) h = h"
    by (simp_all add: set_take_subset set_drop_subset)
  then show ?thesis
    by (simp add: separate_def separator_not_symbol)
qed

lemma symbols_separate:
  assumes "set h \<subseteq> set base32Alphabet" "length h \<le> 4"
  shows "symbols up (separate h) = h"
proof -
  have canon: "\<forall>c\<in>set (separate h). c \<in> set base32Alphabet \<or> c = CHR ''-''"
    using set_separate [of h] assms(1) by auto
  then have "map (\<lambda>c. case base32Mapping c of Some v \<Rightarrow> v | None \<Rightarrow> c) (separate h) = separate h"
    by (simp add: canonical_char map_idI)
  then show ?thesis
    using assms(2) by (simp add: symbols_def toUpperCase_canonical [OF canon] filter_separate [OF assms(1)])
qed

lemma symbols_canonical: "set (symbols up s) \<subseteq> set base32Alphabet"
proof -
  have "set (take 4 xs) \<subseteq> set xs" for xs :: string
    by (rule set_take_subset)
  then show ?thesis
    unfolding symbols_def by (rule subset_trans) auto
qed

lemma length_symbols: "length (symbols up s) \<le> 4"
  by (simp add: symbols_def)

lemma formatHash_fixed:
  assumes "set h \<subseteq> set base32Alphabet" "length h \<le> 4"
  shows "formatHash up (separate h) = separate h"
  by (simp add: formatHash_separate symbols_separate [OF assms])

text \<open>
  Claim C4. Formatter idempotence: for every string \<open>s\<close>, formatting the formatted
  string gives the formatted string again, whatever the host's upper-casing makes of
  non-ASCII characters.
\<close>

theorem formatHash_idempotent: "formatHash up (formatHash up s) = formatHash up s"
  unfolding formatHash_separate [of up s]
  by (rule formatHash_fixed) (simp_all add: symbols_canonical length_symbols)

lemma code_of_bytes_separate:
  "\<exists>h. code_of_bytes bs = separate h \<and> set h \<subseteq> set base32Alphabet \<and> length h = 4"
proof -
  let ?n = "packed bs"
  let ?h = "[base32Alphabet ! (?n div 32 div 32 div 32 mod 32), base32Alphabet ! (?n div 32 div 32 mod 32),
             base32Alphabet ! (?n div 32 mod 32), base32Alphabet ! (?n mod 32)]"
  have "code_of_bytes bs = separate ?h"
    by (simp add: code_of_bytes_eq separate_def)
  moreover have "set ?h \<subseteq> set base32Alphabet"
    by (simp add: alphabet_nth)
  ultimately show ?thesis
    by (intro exI [of _ ?h]) simp
qed

text \<open>
  Claim C10. For every string \<open>p\<close>, the code \<open>hashString p\<close> is a fixed point of the
  formatter: a full code that is pasted canonicalizes to itself before the lookup.
\<close>

theorem formatHash_hashString: "formatHash up (hashString p) = hashString p"
proof -
  obtain h where "code_of_bytes (sha256 (encode p)) = separate h"
    "set h \<subseteq> set base32Alphabet" "length h = 4"
    using code_of_bytes_separate by blast
  then show ?thesis
    by (simp add: hashString_def formatHash_fixed)
qed

lemma filter_formatHash: "filter (\<lambda>c. c \<noteq> CHR ''-'') (formatHash up s) = symbols up s"
proof -
  have "filter (\<lambda>c. c \<noteq> CHR ''-'') xs = xs" if "set xs \<subseteq> set (symbols up s)" for xs
    using that symbols_canonical [of up s] separator_not_symbol by (auto simp: filter_id_conv)
  then have "filter (\<lambda>c. c \<noteq> CHR ''-'') (take 2 (symbols up s)) = take 2 (symbols up s)"
    and "filter (\<lambda>c. c \<noteq> CHR ''-'') (drop 2 (symbols up s)) = drop 2 (symbols up s)"
    and "filter (\<lambda>c. c \<noteq> CHR ''-'') (symbols up s) = symbols up s"
    by (simp_all add: set_take_subset set_drop_subset)
  then show ?thesis
    by (simp add: formatHash_separate separate_def)
qed

lemma formatHash_eval:
  "formatHash up ''o1i u'' = ''01-1V''" "formatHash up ''OILU'' = ''01-1V''"
  "formatHash up ''AB'' = ''AB''" "formatHash up ''AB-CD'' = ''AB-CD''" "formatHash up ''ZZ'' = ''ZZ''"
  "formatHash up ''zd'' = ''ZD''"
  by (simp_all add: formatHash_def toUpperCase.simps is_ascii_def upper_ascii_def
        base32Mapping_def base32Alphabet_def)

text \<open>
  Claim C9, as stated: \<open>formatHash\<close> of \<^verbatim>\<open>o1i u\<close> is \<^verbatim>\<open>0-11V\<close>. The code puts the
  separator after the second symbol, not after the first.
\<close>

theorem formatHash_example_counterexample: "formatHash (\<lambda>r. r) ''o1i u'' \<noteq> ''0-11V''"
  by (simp add: formatHash_eval)

text \<open>
  Claim C9, amended. \<open>formatHash\<close> of \<^verbatim>\<open>o1i u\<close> is \<^verbatim>\<open>01-1V\<close>: the input is
  upper-cased, the look-alike letters are substituted (O by 0, I and L by 1, U by V),
  whitespace and every other non-canonical character is dropped; of any input at most
  four symbols are kept, all of them canonical, and the separator goes after the second
  symbol when there are more than two.
\<close>

theorem formatHash_example:
  "formatHash up ''o1i u'' = ''01-1V'' \<and> formatHash up ''OILU'' = ''01-1V'' \<and>
   set (filter (\<lambda>c. c \<noteq> CHR ''-'') (formatHash up s)) \<subseteq> set base32Alphabet \<and>
   length (filter (\<lambda>c. c \<noteq> CHR ''-'') (formatHash up s)) \<le> 4 \<and>
   formatHash up s = separate (filter (\<lambda>c. c \<noteq> CHR ''-'') (formatHash up s))"
  by (simp only: formatHash_eval filter_formatHash symbols_canonical length_symbols
        formatHash_separate [symmetric])

subsection \<open>The maps\<close>

lemma jsmap_get_set: "jsmap_get (jsmap_set m k v) k' = (if k' = k then Some v else jsmap_get m k')"
  by (induction m) auto

lemma jsmap_get_map_of: "jsmap_get m k = map_of m k"
  by (induction m) auto

lemma jsmap_get_None: "jsmap_get m k = None \<longleftrightarrow> k \<notin> fst ` set m"
  by (simp add: jsmap_get_map_of map_of_eq_None_iff)


lemma keys_set: "fst ` set (jsmap_set m k v) = insert k (fst ` set m)"
  by (induction m k v rule: jsmap_set.induct) (simp_all add: insert_commute)

lemma keys_delete: "fst ` set (jsmap_delete m k) \<subseteq> fst ` set m"
  by (induction m k rule: jsmap_delete.induct) (simp_all add: subset_insertI2)

lemma distinct_set: "distinct (map fst m) \<Longrightarrow> distinct (map fst (jsmap_set m k v))"
  by (induction m k v rule: jsmap_set.induct) (auto simp: keys_set)

lemma distinct_delete: "distinct (map fst m) \<Longrightarrow> distinct (map fst (jsmap_delete m k))"
  using keys_delete [of _ k]
  by (induction m k rule: jsmap_delete.induct) auto

lemma key_deleted: "distinct (map fst m) \<Longrightarrow> k \<notin> fst ` set (jsmap_delete m k)"
  by (induction m k rule: jsmap_delete.induct) auto

lemma jsmap_get_delete_other: "k' \<noteq> k \<Longrightarrow> jsmap_get (jsmap_delete m k) k' = jsmap_get m k'"
  by (induction m k rule: jsmap_delete.induct) auto

lemma jsmap_get_delete:
  "distinct (map fst m) \<Longrightarrow>
     jsmap_get (jsmap_delete m k) k' = (if k' = k then None else jsmap_get m k')"
  by (simp add: jsmap_get_delete_other jsmap_get_None key_deleted)

lemma jsmap_set_same: "jsmap_get m k = Some v \<Longrightarrow> jsmap_set m k v = m"
  by (induction m k v rule: jsmap_set.induct) (auto split: if_splits)

lemma jsmap_delete_absent: "jsmap_get m k = None \<Longrightarrow> jsmap_delete m k = m"
  by (induction m k rule: jsmap_delete.induct) (auto split: if_splits)

subsection \<open>The invariant\<close>

lemma hashString_nonempty [simp]: "hashString p \<noteq> []"
  using code_of_bytes_shape [of "sha256 (encode p)"] by (auto simp: hashString_def)

lemma length_hashString: "length (hashString p) = 5"
  using code_of_bytes_shape [of "sha256 (encode p)"] by (simp add: hashString_def)

lemma sound_code: "sound st \<Longrightarrow> jsmap_get (pathsToHashes st) p = Some c \<Longrightarrow> c = hashString p"
  unfolding sound_def by blast

lemma sound_entry:
  "sound st \<Longrightarrow> jsmap_get (hashesToPaths st) c = Some q \<Longrightarrow>
     c = hashString q \<and> jsmap_get (pathsToHashes st) q = Some c"
  unfolding sound_def by blast


lemma sound_empty: "sound empty_index"
  by (simp add: sound_def empty_index_def)

lemma sound_addPath: "sound st \<Longrightarrow> sound (snd (addPath st p))"
  unfolding sound_def addPath_def Let_def
  by (auto simp: jsmap_get_set distinct_set)

lemma sound_removePath: "sound st \<Longrightarrow> sound (removePath st p)"
  unfolding sound_def removePath_def
  by (auto simp: jsmap_get_delete distinct_delete split: option.splits)

lemma sound_perform: "sound st \<Longrightarrow> sound (perform st x)"
  by (cases x) (simp_all add: sound_addPath sound_removePath)

lemma sound_run: "sound st \<Longrightarrow> sound (run st xs)"
  by (induction xs arbitrary: st) (simp_all add: sound_perform)

lemma sound_reachable: "sound (run empty_index xs)"
  by (rule sound_run) (rule sound_empty)

subsection \<open>Without collisions the maps are inverses\<close>






subsection \<open>When a code has no entry\<close>












subsection \<open>Adding a tracked path\<close>

text \<open>
  Claim C3, amended. In every state reached from the empty index, for a path \<open>p\<close>
  present in the path map with code \<open>c\<close>, \<open>addPath\<close> returns \<open>c\<close> and leaves the path map
  unchanged, and it sets the entry of \<open>c\<close> in the code map to \<open>p\<close>: nothing changes when
  \<open>p\<close> owns that entry, and an entry owned by a colliding path is overwritten.
  \<open>getHashForPath\<close> is the operation that returns \<open>c\<close> and changes nothing.
\<close>

theorem addPath_tracked:
  assumes "st = run empty_index ops" and "jsmap_get (pathsToHashes st) p = Some c"
  shows "fst (addPath st p) = c \<and>
         pathsToHashes (snd (addPath st p)) = pathsToHashes st \<and>
         hashesToPaths (snd (addPath st p)) = jsmap_set (hashesToPaths st) c p \<and>
         (jsmap_get (hashesToPaths st) c = Some p \<longrightarrow> snd (addPath st p) = st) \<and>
         getHashForPath st p = (c, st)"
proof -
  have c: "c = hashString p"
    using sound_reachable [of ops] assms(2) unfolding assms(1) by (rule sound_code)
  show ?thesis
    using assms(2) unfolding c
    by (simp add: addPath_def getHashForPath_def jsmap_set_same Let_def)
qed

subsection \<open>Search\<close>

lemma suggestions_loop_filter:
  "suggestions_loop q entries results =
     results @ map (\<lambda>(h, p). \<lparr>hash = h, path = p\<rparr>) (filter (\<lambda>(h, p). startsWith h q) entries)"
  by (induction q entries results rule: suggestions_loop.induct) simp_all

text \<open>
  Claim C5. For every index and every query, \<open>getSuggestions\<close> formats the query and
  returns exactly the entries of the code map whose code starts with the formatted
  query, in the order of the map, which is insertion order. With the entries AB-CD,
  AB-EF and GH-IJ inserted in that order, the query AB gives the first two in that order,
  AB-CD gives the first, and ZZ gives nothing.
\<close>

theorem getSuggestions_prefix:
  "getSuggestions up plugin q =
     map (\<lambda>(h, p). \<lparr>hash = h, path = p\<rparr>)
       (filter (\<lambda>(h, p). startsWith h (formatHash up q)) (hashesToPaths plugin)) \<and>
   getSuggestions up
     \<lparr>hashesToPaths = jsmap_set (jsmap_set (jsmap_set [] ''AB-CD'' ''x'') ''AB-EF'' ''y'') ''GH-IJ'' ''z'',
      pathsToHashes = m\<rparr> ''AB'' =
      [\<lparr>hash = ''AB-CD'', path = ''x''\<rparr>, \<lparr>hash = ''AB-EF'', path = ''y''\<rparr>] \<and>
   getSuggestions up
     \<lparr>hashesToPaths = jsmap_set (jsmap_set (jsmap_set [] ''AB-CD'' ''x'') ''AB-EF'' ''y'') ''GH-IJ'' ''z'',
      pathsToHashes = m\<rparr> ''AB-CD'' = [\<lparr>hash = ''AB-CD'', path = ''x''\<rparr>] \<and>
   getSuggestions up
     \<lparr>hashesToPaths = jsmap_set (jsmap_set (jsmap_set [] ''AB-CD'' ''x'') ''AB-EF'' ''y'') ''GH-IJ'' ''z'',
      pathsToHashes = m\<rparr> ''ZZ'' = []"
  by (simp add: getSuggestions_def suggestions_loop_filter formatHash_eval startsWith_def)

subsection \<open>Resolution\<close>

lemma length_formatHash_partial:
  assumes "length (filter (\<lambda>c. c \<noteq> CHR ''-'') (formatHash up s)) < 4"
  shows "length (formatHash up s) < 5"
proof -
  have "length (symbols up s) < 4"
    using assms by (simp add: filter_formatHash)
  then show ?thesis
    by (auto simp: formatHash_separate separate_def)
qed

lemma partial_absent:
  assumes "length (filter (\<lambda>c. c \<noteq> CHR ''-'') (formatHash up s)) < 4"
  shows "jsmap_get (hashesToPaths (run empty_index ops)) (formatHash up s) = None"
proof (cases "jsmap_get (hashesToPaths (run empty_index ops)) (formatHash up s)")
  case None
  then show ?thesis .
next
  case (Some q)
  then have "formatHash up s = hashString q"
    using sound_entry [OF sound_reachable] by blast
  then have "length (formatHash up s) = 5"
    by (simp add: length_hashString)
  then show ?thesis
    using length_formatHash_partial [OF assms] by simp
qed

text \<open>
  Claim C6. In every state reached from the empty index and for every input \<open>s\<close>,
  \<open>openNoteForHash\<close> formats \<open>s\<close> and looks the result up in the code map; it reports
  that there is no such code whenever no entry has the formatted code as its key, in
  particular whenever the formatted input has fewer than four symbols; and it leaves
  both maps as they are.
\<close>

theorem openNoteForHash_not_found:
  assumes "st = run empty_index ops"
  shows "(jsmap_get (hashesToPaths st) (formatHash up s) = None \<longrightarrow>
            fst (openNoteForHash up vault st s) = NoSuchNoteCode (padEnd 5 CHR ''_'' (formatHash up s))) \<and>
         (length (filter (\<lambda>c. c \<noteq> CHR ''-'') (formatHash up s)) < 4 \<longrightarrow>
            fst (openNoteForHash up vault st s) = NoSuchNoteCode (padEnd 5 CHR ''_'' (formatHash up s))) \<and>
         fst (openNoteForHash up vault st s) =
           (case jsmap_get (hashesToPaths st) (formatHash up s) of
              None \<Rightarrow> NoSuchNoteCode (padEnd 5 CHR ''_'' (formatHash up s))
            | Some p \<Rightarrow>
                if p = [] then NoSuchNoteCode (padEnd 5 CHR ''_'' (formatHash up s))
                else if vault p then OpenFile p else FileNotFound p) \<and>
         snd (openNoteForHash up vault st s) = st"
  using partial_absent [of up s ops] unfolding assms
  by (auto simp: openNoteForHash_def Let_def split: option.splits)

subsection \<open>Rename\<close>

lemma only_tracked:
  assumes "sound st" "map fst (pathsToHashes st) = [old]"
  shows "pathsToHashes st = [(old, hashString old)]"
    and "hashesToPaths st = [] \<or> hashesToPaths st = [(hashString old, old)]"
proof -
  obtain c where p2h: "pathsToHashes st = [(old, c)]"
    using assms(2) by (cases "pathsToHashes st") auto
  then have "c = hashString old"
    using sound_code [OF assms(1), of old c] by simp
  then show p: "pathsToHashes st = [(old, hashString old)]"
    using p2h by simp
  have entry: "e = (hashString old, old)" if "e \<in> set (hashesToPaths st)" for e
  proof -
    obtain k q where e: "e = (k, q)"
      by (cases e)
    have "distinct (map fst (hashesToPaths st))"
      using assms(1) by (simp add: sound_def)
    then have "jsmap_get (hashesToPaths st) k = Some q"
      using that e by (simp add: jsmap_get_map_of)
    then have "k = hashString q" "jsmap_get (pathsToHashes st) q = Some k"
      using sound_entry [OF assms(1)] by blast+
    then show ?thesis
      using e p by (simp split: if_splits)
  qed
  have dist: "distinct (map fst (hashesToPaths st))"
    using assms(1) by (simp add: sound_def)
  show "hashesToPaths st = [] \<or> hashesToPaths st = [(hashString old, old)]"
  proof (cases "hashesToPaths st")
    case Nil
    then show ?thesis by simp
  next
    case first: (Cons e m)
    have e: "e = (hashString old, old)"
      using entry first by simp
    have "m = []"
    proof (cases m)
      case Nil
      then show ?thesis .
    next
      case (Cons e' m')
      then have "e' = (hashString old, old)"
        using entry first by simp
      then show ?thesis
        using dist Cons e first by simp
    qed
    then show ?thesis
      using first e by simp
  qed
qed

text \<open>
  Claim C7. A rename takes a path \<open>old\<close> to another path \<open>new\<close>. In a state reached from
  the empty index where \<open>old\<close> is the only tracked path, \<open>removePath old\<close> followed by
  \<open>addPath new\<close> leaves exactly one tracked path, \<open>new\<close>, mapped to \<open>hashString new\<close> in
  both directions, and \<open>old\<close> is no longer present in the path map.
\<close>

theorem rename_only_tracked:
  assumes "st = run empty_index ops" and "map fst (pathsToHashes st) = [old]"
    and "old \<noteq> new" and "st' = snd (addPath (removePath st old) new)"
  shows "pathsToHashes st' = [(new, hashString new)] \<and>
         hashesToPaths st' = [(hashString new, new)] \<and>
         jsmap_get (pathsToHashes st') old = None"
proof -
  have s: "sound st"
    unfolding assms(1) by (rule sound_reachable)
  note t = only_tracked [OF s assms(2)]
  have "removePath st old = \<lparr>hashesToPaths = [], pathsToHashes = []\<rparr>"
    using t by (auto simp: removePath_def)
  then show ?thesis
    using assms(3) by (simp add: assms(4) addPath_def Let_def)
qed

text \<open>Claim C7 at the rename of \<^verbatim>\<open>a.md\<close> to \<^verbatim>\<open>b.md\<close>.\<close>

theorem rename_only_tracked_witness:
  "map fst (pathsToHashes (run empty_index [AddPath ''a.md''])) = [''a.md''] \<and> ''a.md'' \<noteq> ''b.md'' \<and>
   pathsToHashes (snd (addPath (removePath (run empty_index [AddPath ''a.md'']) ''a.md'') ''b.md''))
     = [(''b.md'', hashString ''b.md'')] \<and>
   hashesToPaths (snd (addPath (removePath (run empty_index [AddPath ''a.md'']) ''a.md'') ''b.md''))
     = [(hashString ''b.md'', ''b.md'')] \<and>
   jsmap_get (pathsToHashes
       (snd (addPath (removePath (run empty_index [AddPath ''a.md'']) ''a.md'') ''b.md''))) ''a.md''
     = None"
proof -
  have tracked: "map fst (pathsToHashes (run empty_index [AddPath ''a.md''])) = [''a.md'']"
    by (simp add: addPath_def empty_index_def Let_def)
  have distinct_paths: "''a.md'' \<noteq> ''b.md''"
    by simp
  show ?thesis
    using rename_only_tracked [OF refl tracked distinct_paths refl] tracked by simp
qed

subsection \<open>Two paths with the same code\<close>

text \<open>
  The digest is computed by rewriting. Each equation below restates a definition with
  the result cut to its width, so that the numerals stay small.
\<close>

lemma tb32: "take_bit 32 (x :: u32) = x"
  by (rule take_bit_word_eq_self) simp

lemma rotr_eval: "rotr n x = take_bit 32 (drop_bit n x OR push_bit (32 - n) x)"
  by (simp only: rotr_def tb32)

lemma next_word_eval:
  "next_word w = take_bit 32 (sigma1 (w ! 14) + w ! 9 + sigma0 (w ! 1) + w ! 0)"
  by (simp only: next_word_def tb32)

lemma shift_state_eval:
  "shift_state t1 t2 s =
     [take_bit 32 (t1 + t2), s ! 0, s ! 1, s ! 2, take_bit 32 (s ! 3 + t1), s ! 4, s ! 5, s ! 6]"
  by (simp only: shift_state_def tb32)

lemma round_eval:
  "round k w s =
     shift_state (take_bit 32 (s ! 7 + Sigma1 (s ! 4) + Ch (s ! 4) (s ! 5) (s ! 6) + k + w))
                 (take_bit 32 (Sigma0 (s ! 0) + Maj (s ! 0) (s ! 1) (s ! 2))) s"
  by (simp only: round_def tb32)

lemma Ch_eval: "Ch x y z = take_bit 32 ((x AND y) XOR (NOT x AND z))"
  by (simp only: Ch_def tb32)

lemma compress_eval:
  "compress hs block = map2 (\<lambda>x y. take_bit 32 (x + y)) hs (rounds K256 (be_words block) hs)"
  by (simp only: compress_def tb32)

lemma word_bytes_eval:
  "word_bytes w = [take_bit 8 (ucast (drop_bit 24 w)), take_bit 8 (ucast (drop_bit 16 w)),
                   take_bit 8 (ucast (drop_bit 8 w)), take_bit 8 (ucast w)]"
proof -
  have "take_bit 8 (x :: u8) = x" for x
    by (rule take_bit_word_eq_self) simp
  then show ?thesis
    by (simp only: word_bytes_def)
qed

lemma replicate_numeral: "replicate (numeral n) x = x # replicate (pred_numeral n) x"
  by (simp add: numeral_eq_Suc)

lemma blocks_numeral:
  "blocks (numeral n) hs m = blocks (pred_numeral n) (compress hs (take 64 m)) (drop 64 m)"
  by (simp add: numeral_eq_Suc)

lemmas sha256_eval = rotr_eval next_word_eval shift_state_eval round_eval Ch_eval compress_eval
  Maj_def Sigma0_def Sigma1_def sigma0_def sigma1_def K256_def H256_def pad_def be_bytes_def
  encode_def sha256_def word_bytes_eval replicate_numeral blocks_numeral

text \<open>The example of the standard: the digest of \<^verbatim>\<open>abc\<close>.\<close>

lemma digest_abc:
  "sha256 (encode ''abc'') =
    [0xba, 0x78, 0x16, 0xbf, 0x8f, 0x01, 0xcf, 0xea, 0x41, 0x41, 0x40, 0xde, 0x5d, 0xae, 0x22, 0x23,
     0xb0, 0x03, 0x61, 0xa3, 0x96, 0x17, 0x7a, 0x9c, 0xb4, 0x10, 0xff, 0x61, 0xf2, 0x00, 0x15, 0xad]"
  by (simp add: sha256_eval)

text \<open>The digests of two paths: their first three bytes agree in the low 20 bits.\<close>

lemma digest_note298:
  "sha256 (encode ''note298.md'') =
    [79, 183, 64, 79, 14, 197, 216, 226, 211, 182, 55, 128, 123, 56, 67, 25,
     224, 232, 80, 155, 119, 240, 193, 77, 88, 49, 163, 136, 97, 9, 242, 4]"
  by (simp add: sha256_eval)

lemma digest_note744:
  "sha256 (encode ''note744.md'') =
    [207, 183, 64, 83, 112, 197, 238, 10, 224, 246, 173, 184, 62, 90, 128, 203,
     169, 27, 160, 253, 35, 24, 234, 160, 71, 73, 164, 223, 185, 151, 133, 4]"
  by (simp add: sha256_eval)

lemma hash_note298: "hashString ''note298.md'' = ''ZD-T0''"
  by (simp add: hashString_def code_of_bytes_eq packed_def byte_or_zero_def digest_note298
        base32Alphabet_def)

lemma hash_note744: "hashString ''note744.md'' = ''ZD-T0''"
  by (simp add: hashString_def code_of_bytes_eq packed_def byte_or_zero_def digest_note744
        base32Alphabet_def)

lemmas index_eval = empty_index_def addPath_def removePath_def getHashForPath_def Let_def
  hash_note298 hash_note744



text \<open>
  Claim C3, as stated. \<^verbatim>\<open>note298.md\<close> is tracked and the colliding \<^verbatim>\<open>note744.md\<close>, added
  later, owns the entry of their code; adding \<^verbatim>\<open>note298.md\<close> again changes the code map.
\<close>

theorem addPath_overwrites_counterexample:
  "jsmap_get (pathsToHashes (run empty_index [AddPath ''note298.md'', AddPath ''note744.md'']))
      ''note298.md'' = Some ''ZD-T0'' \<and>
   hashesToPaths (run empty_index [AddPath ''note298.md'', AddPath ''note744.md''])
     = [(''ZD-T0'', ''note744.md'')] \<and>
   hashesToPaths (snd (addPath (run empty_index [AddPath ''note298.md'', AddPath ''note744.md''])
      ''note298.md'')) = [(''ZD-T0'', ''note298.md'')]"
  by (simp add: index_eval)

text \<open>Claim C3, amended, at the path that owns the entry of its code.\<close>

theorem addPath_tracked_witness:
  "jsmap_get (pathsToHashes (run empty_index [AddPath ''note298.md'', AddPath ''note744.md'']))
      ''note744.md'' = Some ''ZD-T0'' \<and>
   jsmap_get (hashesToPaths (run empty_index [AddPath ''note298.md'', AddPath ''note744.md'']))
      ''ZD-T0'' = Some ''note744.md'' \<and>
   addPath (run empty_index [AddPath ''note298.md'', AddPath ''note744.md'']) ''note744.md''
     = (''ZD-T0'', run empty_index [AddPath ''note298.md'', AddPath ''note744.md'']) \<and>
   getHashForPath (run empty_index [AddPath ''note298.md'', AddPath ''note744.md'']) ''note744.md''
     = (''ZD-T0'', run empty_index [AddPath ''note298.md'', AddPath ''note744.md''])"
proof -
  let ?st = "run empty_index [AddPath ''note298.md'', AddPath ''note744.md'']"
  have tracked: "jsmap_get (pathsToHashes ?st) ''note744.md'' = Some ''ZD-T0''"
    by (simp add: index_eval)
  have owner: "jsmap_get (hashesToPaths ?st) ''ZD-T0'' = Some ''note744.md''"
    by (simp add: index_eval)
  show ?thesis
    using addPath_tracked [OF refl tracked] tracked owner
    by (simp add: prod_eq_iff)
qed

text \<open>Claim C6 at the partial code \<^verbatim>\<open>zd\<close> in an index that holds the code ZD-T0.\<close>

theorem openNoteForHash_not_found_witness:
  "jsmap_get (hashesToPaths (run empty_index [AddPath ''note298.md''])) (formatHash (\<lambda>r. r) ''zd'') = None \<and>
   length (filter (\<lambda>c. c \<noteq> CHR ''-'') (formatHash (\<lambda>r. r) ''zd'')) < 4 \<and>
   openNoteForHash (\<lambda>r. r) (\<lambda>p. True) (run empty_index [AddPath ''note298.md'']) ''zd''
     = (NoSuchNoteCode ''ZD___'', run empty_index [AddPath ''note298.md''])"
proof -
  have partial: "length (filter (\<lambda>c. c \<noteq> CHR ''-'') (formatHash (\<lambda>r. r) ''zd'')) < 4"
    by (simp add: formatHash_eval)
  have absent: "jsmap_get (hashesToPaths (run empty_index [AddPath ''note298.md'']))
      (formatHash (\<lambda>r. r) ''zd'') = None"
    by (simp add: index_eval formatHash_eval)
  show ?thesis
    using openNoteForHash_not_found [OF refl, of "[AddPath ''note298.md'']" "\<lambda>r. r" "''zd''" "\<lambda>p. True"]
      partial absent
    by (simp add: prod_eq_iff formatHash_eval padEnd_def numeral_3_eq_3)
qed

end
